theory Spec2Isabelle
  imports Main "HOL-Library.AList" "HOL-Library.Sublist"
begin

section \<open>The ValidationObserver of src/components/Observer.ts\<close>

text \<open>
  The observer keeps three collections: \<open>refs\<close> (the registered providers, keyed by
  id), \<open>inactiveRefs\<close> (the cached state of removed providers that asked to persist) and
  \<open>observers\<close> (the nested observers). The spec calls them activeMembers, inactiveCache
  and nestedScopes, calls a provider a member and an observer a scope.

  A JavaScript object used as a record of string keys is the association list of its
  own properties: \<open>map_of\<close> finds one, \<open>AList.update\<close> adds or replaces one (an
  existing key keeps its place, a new key goes to the end, as the properties of an
  object do) and \<open>AList.delete\<close> removes one, as \<open>$delete\<close> does. A read
  \<open>obj[key]\<close> also finds what the object inherits, and an assignment to the key
  \<open>__proto__\<close> replaces the prototype instead of adding a property; both are modelled
  below (\<open>get_plain\<close>, \<open>get_inactiveRefs\<close>, \<open>put_inactiveRefs\<close>, \<open>put_errors\<close>).
  Two things are left out. Keys that are array indices are listed before the other
  keys; this only changes the order of the values within \<open>refs\<close> and within
  \<open>inactiveRefs\<close>. And what the framework does to make these objects reactive is
  outside the model.

  A default argument is passed explicitly in the model: the \<open>kind\<close> of \<open>subscribe\<close>
  and \<open>unsubscribe\<close> is 'provider' unless given.
\<close>

subsection \<open>Data\<close>

type_synonym ValidationFlags = "(string \<times> bool) list"

text \<open>
  The fields of a provider that the observer reads: \<open>id\<close>, \<open>persist\<close>, \<open>disabled\<close>,
  \<open>flags\<close>, \<open>errors\<close> and \<open>failedRules\<close>. The Provider component and the types of
  \<open>../types\<close> are not among the sources; the types of the fields are those of the
  spec's leaf contract. A flags object is read by key and may lack a key.
\<close>

record ProviderInstance =
  p_id :: string
  p_persist :: bool
  p_disabled :: bool
  p_flags :: ValidationFlags
  p_errors :: "string list"
  p_failedRules :: "(string \<times> string list) list"

text \<open>The object literal that \<open>removeProvider\<close> stores in \<open>inactiveRefs\<close>.\<close>

record InactiveRefCache =
  c_id :: string
  c_flags :: ValidationFlags
  c_errors :: "string list"
  c_failedRules :: "(string \<times> string list) list"

text \<open>
  The values of an observer's \<open>errors\<close> object: the watcher stores \<open>vm.errors\<close>
  under \<open>vm.id\<close>, which is a list of messages for a provider or a cached state and
  the whole \<open>errors\<close> object of a nested observer.
\<close>

datatype ObserverErrorsValue =
  Messages "string list"
| Nested ObserverErrors
and ObserverErrors = ObserverErrors
  (own_errors: "(string \<times> ObserverErrorsValue) list")
  (proto_errors: "ObserverErrorsValue option")

text \<open>
  An \<open>errors\<close> object has its own properties and a prototype: \<open>None\<close> stands for
  \<open>Object.prototype\<close>, and \<open>Some v\<close> for the value that an assignment to
  \<open>__proto__\<close> has put in its place.
\<close>

text \<open>
  What a read \<open>obj[key]\<close> gives where the code goes on to use it: \<open>undefined\<close> (or
  another falsy value), a value of the kind the object is meant to hold, or a member
  of the prototype chain, which is truthy and is not such a value.
\<close>

datatype 'v property = Undefined | Value 'v | Inherited

text \<open>The property names of \<open>Object.prototype\<close>, which every plain object answers to.\<close>

definition Object_prototype_names :: "string list" where
  "Object_prototype_names =
     [''constructor'', ''__defineGetter__'', ''__defineSetter__'', ''hasOwnProperty'',
      ''__lookupGetter__'', ''__lookupSetter__'', ''isPrototypeOf'', ''propertyIsEnumerable'',
      ''toString'', ''valueOf'', ''__proto__'', ''toLocaleString'']"

text \<open>
  \<open>obj[key]\<close> for an object whose prototype is \<open>Object.prototype\<close>, as \<open>refs\<close>
  always is: \<open>subscribe\<close> builds it anew with a spread and a computed key, which add
  own properties only.
\<close>

definition get_plain :: "(string \<times> 'v) list \<Rightarrow> string \<Rightarrow> 'v property" where
  "get_plain obj key =
     (case map_of obj key of
        Some v \<Rightarrow> Value v
      | None \<Rightarrow> if key \<in> set Object_prototype_names then Inherited else Undefined)"

text \<open>
  The observer instance: the fields of \<open>data()\<close> and the prop \<open>disabled\<close>. The nested
  observers are held by value, so the instances form a tree, as the components that
  register with their enclosing observer do. \<open>o_inactiveRefs\<close> holds the own
  properties of \<open>inactiveRefs\<close> and \<open>o_inactiveRefs_proto\<close> its prototype: \<open>None\<close>
  for \<open>Object.prototype\<close>, \<open>Some state\<close> once \<open>removeProvider\<close> has assigned a state
  to the key \<open>__proto__\<close>.
\<close>

datatype observer = Observer
  (o_id: string)
  (o_refs: "(string \<times> ProviderInstance) list")
  (o_observers: "observer list")
  (o_inactiveRefs: "(string \<times> InactiveRefCache) list")
  (o_inactiveRefs_proto: "InactiveRefCache option")
  (o_errors: ObserverErrors)
  (o_flags: ValidationFlags)
  (o_disabled: bool)

text \<open>
  \<open>data()\<close>: the state of a new observer, together with the value of its prop
  \<open>disabled\<close>. The id is empty until \<open>created\<close> assigns the vid to it.
\<close>

definition data :: "bool \<Rightarrow> observer" where
  "data disabled = Observer [] [] [] [] None (ObserverErrors [] None) [] disabled"

text \<open>
  Modelled from the spec: \<open>values\<close> of \<open>../utils\<close>, which is not among the sources.
  The spec takes the values of the mapping; they are listed in the order of the keys.
\<close>

definition values_of :: "('k \<times> 'v) list \<Rightarrow> 'v list" where
  "values_of obj = map snd obj"

text \<open>\<open>Object.keys(obj)\<close>\<close>

definition keys_of :: "('k \<times> 'v) list \<Rightarrow> 'k list" where
  "keys_of obj = map fst obj"

subsection \<open>The watcher: recomputing errors and flags\<close>

datatype strategy = every | some

definition FLAGS_STRATEGIES :: "(string \<times> strategy) list" where
  "FLAGS_STRATEGIES =
    [(''pristine'', every),
     (''dirty'', some),
     (''touched'', some),
     (''untouched'', every),
     (''valid'', every),
     (''invalid'', some),
     (''pending'', some),
     (''validated'', every),
     (''changed'', some),
     (''passed'', every),
     (''failed'', some)]"

text \<open>
  The watcher reads \<open>id\<close>, \<open>errors\<close> and \<open>flags\<close> of every element of \<open>vms\<close>,
  whatever kind of object it is; \<open>vm\<close> is that view of a provider, of a cached state
  and of a nested observer.
\<close>

record vm =
  vm_id :: string
  vm_errors :: ObserverErrorsValue
  vm_flags :: ValidationFlags

definition provider_vm :: "ProviderInstance \<Rightarrow> vm" where
  "provider_vm p = \<lparr>vm_id = p_id p, vm_errors = Messages (p_errors p), vm_flags = p_flags p\<rparr>"

definition cache_vm :: "InactiveRefCache \<Rightarrow> vm" where
  "cache_vm c = \<lparr>vm_id = c_id c, vm_errors = Messages (c_errors c), vm_flags = c_flags c\<rparr>"

definition observer_vm :: "observer \<Rightarrow> vm" where
  "observer_vm ob = \<lparr>vm_id = o_id ob, vm_errors = Nested (o_errors ob), vm_flags = o_flags ob\<rparr>"

text \<open>\<open>[...values(this.refs), ...values(this.inactiveRefs), ...this.observers]\<close>\<close>

definition vms :: "observer \<Rightarrow> vm list" where
  "vms this =
     map provider_vm (values_of (o_refs this))
     @ map cache_vm (values_of (o_inactiveRefs this))
     @ map observer_vm (o_observers this)"

text \<open>
  \<open>vm.flags[flag]\<close> used as a condition: a missing key reads \<open>undefined\<close>, which is
  falsy like \<open>false\<close>.
\<close>

definition flag_truthy :: "string \<Rightarrow> vm \<Rightarrow> bool" where
  "flag_truthy flag v = (map_of (vm_flags v) flag = Some True)"

text \<open>\<open>vms[method](f)\<close> for the two array methods of the table.\<close>

fun array_method :: "strategy \<Rightarrow> ('a \<Rightarrow> bool) \<Rightarrow> 'a list \<Rightarrow> bool" where
  "array_method every f xs = list_all f xs"
| "array_method some f xs = list_ex f xs"

text \<open>
  \<open>errors[key] = value\<close>, where the value is an array or an object. The key
  \<open>__proto__\<close> reaches the setter that every object inherits, which makes the value
  the prototype of \<open>errors\<close>, unless \<open>errors\<close> has an own property of that name; any
  other key is written as an own property.
\<close>

definition put_errors :: "string \<Rightarrow> ObserverErrorsValue \<Rightarrow> ObserverErrors \<Rightarrow> ObserverErrors" where
  "put_errors key v errors =
     (if key = ''__proto__'' \<and> map_of (own_errors errors) key = None
      then ObserverErrors (own_errors errors) (Some v)
      else ObserverErrors (AList.update key v (own_errors errors)) (proto_errors errors))"

definition watch_errors :: "vm list \<Rightarrow> ObserverErrors" where
  "watch_errors xs =
     fold (\<lambda>v errors. put_errors (vm_id v) (vm_errors v) errors) xs (ObserverErrors [] None)"

definition watch_flags :: "vm list \<Rightarrow> ValidationFlags" where
  "watch_flags xs =
     fold (\<lambda>(flag, method) flags. AList.update flag (array_method method (flag_truthy flag) xs) flags)
       FLAGS_STRATEGIES []"

text \<open>
  The function watched in \<open>created\<close>; its result is what the debounced \<open>onChange\<close>
  assigns to \<open>this.errors\<close> and \<open>this.flags\<close>.
\<close>

definition watch :: "observer \<Rightarrow> ObserverErrors \<times> ValidationFlags" where
  "watch this = (watch_errors (vms this), watch_flags (vms this))"

subsection \<open>Assignments to the fields of an observer\<close>

primrec set_refs :: "(string \<times> ProviderInstance) list \<Rightarrow> observer \<Rightarrow> observer" where
  "set_refs refs' (Observer i refs obs inact iproto errs fl dis) =
     Observer i refs' obs inact iproto errs fl dis"

primrec set_observers :: "observer list \<Rightarrow> observer \<Rightarrow> observer" where
  "set_observers obs' (Observer i refs obs inact iproto errs fl dis) =
     Observer i refs obs' inact iproto errs fl dis"

primrec set_inactiveRefs :: "(string \<times> InactiveRefCache) list \<Rightarrow> observer \<Rightarrow> observer" where
  "set_inactiveRefs inact' (Observer i refs obs inact iproto errs fl dis) =
     Observer i refs obs inact' iproto errs fl dis"

primrec set_inactiveRefs_proto :: "InactiveRefCache option \<Rightarrow> observer \<Rightarrow> observer" where
  "set_inactiveRefs_proto iproto' (Observer i refs obs inact iproto errs fl dis) =
     Observer i refs obs inact iproto' errs fl dis"

text \<open>
  \<open>this.inactiveRefs[key]\<close>. An own property comes first. Otherwise the prototype
  chain answers: when a state has become the prototype, \<open>__proto__\<close> reads that state,
  and the names of its own properties read its id (falsy when empty), its flags,
  its errors and its failedRules; the names of \<open>Object.prototype\<close> read its members.
\<close>

definition get_inactiveRefs :: "observer \<Rightarrow> string \<Rightarrow> InactiveRefCache property" where
  "get_inactiveRefs this key =
     (case map_of (o_inactiveRefs this) key of
        Some state \<Rightarrow> Value state
      | None \<Rightarrow>
          (case o_inactiveRefs_proto this of
             None \<Rightarrow> get_plain [] key
           | Some snapshot \<Rightarrow>
               if key = ''__proto__'' then Value snapshot
               else if key = ''id'' then (if c_id snapshot = [] then Undefined else Inherited)
               else if key \<in> set [''flags'', ''errors'', ''failedRules''] then Inherited
               else get_plain [] key))"

text \<open>
  \<open>this.inactiveRefs[key] = state\<close>: the key \<open>__proto__\<close> reaches the inherited
  setter, which makes the state the prototype, unless \<open>inactiveRefs\<close> has an own
  property of that name; any other key is written as an own property.
\<close>

definition put_inactiveRefs :: "string \<Rightarrow> InactiveRefCache \<Rightarrow> observer \<Rightarrow> observer" where
  "put_inactiveRefs key state this =
     (if key = ''__proto__'' \<and> map_of (o_inactiveRefs this) key = None
      then set_inactiveRefs_proto (Some state) this
      else set_inactiveRefs (AList.update key state (o_inactiveRefs this)) this)"

subsection \<open>The default of the prop vid\<close>

text \<open>
  \<open>OBSERVER_COUNTER\<close> is a JavaScript number that only ever holds a natural number.
  Numbers are doubles: below \<open>2^53\<close> adding one is exact, and \<open>2^53 + 1\<close> rounds back
  to \<open>2^53\<close>. \<open>post_increment\<close> is \<open>OBSERVER_COUNTER++\<close> on the counter passed as
  state: the value read and the value stored.
\<close>

definition post_increment :: "nat \<Rightarrow> nat \<times> nat" where
  "post_increment counter = (counter, if counter < 2 ^ 53 then counter + 1 else counter)"

definition digit :: "nat \<Rightarrow> char" where
  "digit d = ''0123456789'' ! d"

text \<open>
  The decimal digits of a natural number, which is how a template literal prints an
  integral number below \<open>10^21\<close>.
\<close>

function Number_toString :: "nat \<Rightarrow> string" where
  "Number_toString n =
     (if n < 10 then [digit n] else Number_toString (n div 10) @ [digit (n mod 10)])"
  by pat_completeness auto
termination
  by (relation "measure (\<lambda>n. n)") auto

declare Number_toString.simps [simp del]

text \<open>\<open>default() { return `obs_${OBSERVER_COUNTER++}`; }\<close>: the id and the new counter.\<close>

definition vid_default :: "nat \<Rightarrow> string \<times> nat" where
  "vid_default counter =
     (let (n, counter') = post_increment counter
      in (''obs_'' @ Number_toString n, counter'))"

text \<open>
  The ids of the first \<open>k\<close> observers created without a vid, starting with the counter
  at \<open>counter\<close>.
\<close>

fun default_vids :: "nat \<Rightarrow> nat \<Rightarrow> string list" where
  "default_vids 0 counter = []"
| "default_vids (Suc k) counter =
     (let (vid, counter') = vid_default counter in vid # default_vids k counter')"

subsection \<open>The methods of a provider that the observer calls\<close>

text \<open>
  Modelled from the spec: \<open>setFlags\<close> of the Provider component, which is not among the
  sources. Restoration replays the cached flags into the member, replacing its flags.
\<close>

definition setFlags :: "ValidationFlags \<Rightarrow> ProviderInstance \<Rightarrow> ProviderInstance" where
  "setFlags flags provider = provider\<lparr>p_flags := flags\<rparr>"

text \<open>
  Modelled from the spec: \<open>applyResult\<close> of the Provider component, which is not among
  the sources. Restoration applies the cached errors and failedRules as the member's
  current result.
\<close>

definition applyResult :: "InactiveRefCache \<Rightarrow> ProviderInstance \<Rightarrow> ProviderInstance" where
  "applyResult state provider =
     provider\<lparr>p_errors := c_errors state, p_failedRules := c_failedRules state\<rparr>"

text \<open>
  The other methods, \<open>validate\<close>, \<open>validateSilent\<close>, \<open>reset\<close> and \<open>setErrors\<close>, are
  parameters of the observer's methods below: \<open>invoke ref name\<close> is what the promise
  returned by \<open>ref[name]()\<close> settles to, \<open>p_reset ref\<close> and \<open>p_setErrors ref msgs\<close>
  are the provider after the call.
\<close>

text \<open>
  Where the code hands a provider method something the method is not written for, or
  calls a method that is not there, the model stops with a fault:
  \<open>TypeError key\<close> when \<open>setErrors\<close> calls \<open>provider.setErrors\<close> on the inherited
  member that \<open>refs[key]\<close> read, which has no such method;
  \<open>Inherited_state key\<close> when \<open>restoreProviderState\<close> calls
  \<open>provider.setFlags(state.flags)\<close> and \<open>provider.applyResult(state)\<close> with the
  inherited member that \<open>inactiveRefs[key]\<close> read, which is no cached state.
\<close>

datatype fault = TypeError string | Inherited_state string

text \<open>Of a validation result the observer reads \<open>valid\<close> only.\<close>

record ValidationResult =
  valid :: bool

datatype 'a promise = Resolved 'a | Rejected

text \<open>\<open>p.then(f)\<close>\<close>

fun then_promise :: "'a promise \<Rightarrow> ('a \<Rightarrow> 'b) \<Rightarrow> 'b promise" where
  "then_promise (Resolved x) f = Resolved (f x)"
| "then_promise Rejected f = Rejected"

text \<open>\<open>Promise.all\<close>: the list of the values when all resolve, rejected otherwise.\<close>

fun Promise_all :: "'a promise list \<Rightarrow> 'a list promise" where
  "Promise_all [] = Resolved []"
| "Promise_all (Rejected # ps) = Rejected"
| "Promise_all (Resolved x # ps) = then_promise (Promise_all ps) (\<lambda>xs. x # xs)"

subsection \<open>subscribe and unsubscribe\<close>

text \<open>
  \<open>subscriber\<close> is typed \<open>any\<close>: a provider passes itself with the default kind and an
  observer passes itself with the kind 'observer' (\<open>register\<close>). A call with an object
  of the other sort is outside this typed model and yields \<open>None\<close>.

  The provider is an object that the caller and \<open>refs\<close> share. The model passes its
  state in and out, and \<open>refs\<close> holds that state.
\<close>

datatype subscriber = ProviderInstance ProviderInstance | ObserverInstance observer

text \<open>
  \<open>restoreProviderState\<close>: the observer and the provider after the call.
  \<open>if (!state) return\<close> is the case of a falsy read; an inherited member is truthy,
  so the code goes on with it, and the model stops with a fault.
\<close>

definition restoreProviderState ::
  "observer \<Rightarrow> ProviderInstance \<Rightarrow> fault + observer \<times> ProviderInstance" where
  "restoreProviderState this provider =
     (let id' = p_id provider in
      case get_inactiveRefs this id' of
        Undefined \<Rightarrow> Inr (this, provider)
      | Inherited \<Rightarrow> Inl (Inherited_state id')
      | Value state \<Rightarrow>
          (let provider1 = setFlags (c_flags state) provider;
               provider2 = applyResult state provider1
           in Inr (set_inactiveRefs (AList.delete (p_id provider2) (o_inactiveRefs this)) this,
                   provider2)))"

text \<open>
  \<open>subscribe\<close>. The entry written to \<open>refs\<close> is a reference to the subscriber, so after
  \<open>restoreProviderState\<close> it shows the restored state: the last assignment of the model
  writes that state to the entry. After a fault the state of the provider, and with it
  of the entry, is not known: the result is \<open>None\<close>.
\<close>

definition subscribe ::
  "observer \<Rightarrow> subscriber \<Rightarrow> string \<Rightarrow> (observer \<times> subscriber) option" where
  "subscribe this subscriber kind =
     (if kind = ''observer'' then
        (case subscriber of
           ObserverInstance ob \<Rightarrow>
             Some (set_observers (o_observers this @ [ob]) this, subscriber)
         | ProviderInstance p \<Rightarrow> None)
      else
        (case subscriber of
           ObserverInstance ob \<Rightarrow> None
         | ProviderInstance p \<Rightarrow>
             (let this1 = set_refs (AList.update (p_id p) p (o_refs this)) this
              in case (if p_persist p then restoreProviderState this1 p else Inr (this1, p)) of
                   Inl fault \<Rightarrow> None
                 | Inr (this2, p') \<Rightarrow>
                     Some (set_refs (AList.update (p_id p) p' (o_refs this2)) this2,
                           ProviderInstance p'))))"

text \<open>
  \<open>removeProvider\<close>. \<open>if (!provider) return\<close> is the case of a falsy read. An
  inherited member has no \<open>persist\<close>, so nothing is stored for it, and \<open>$delete\<close>
  removes own properties only. The stored state holds what the provider's flags,
  errors and failedRules are when it is removed. The warning printed outside
  production for an id that starts with \<open>_vee_\<close> changes no state and is left out.
\<close>

definition removeProvider :: "observer \<Rightarrow> string \<Rightarrow> observer" where
  "removeProvider this id' =
     (case get_plain (o_refs this) id' of
        Undefined \<Rightarrow> this
      | Inherited \<Rightarrow> set_refs (AList.delete id' (o_refs this)) this
      | Value provider \<Rightarrow>
          (let this1 =
                 (if p_persist provider then
                    put_inactiveRefs id'
                      \<lparr>c_id = id', c_flags = p_flags provider, c_errors = p_errors provider,
                       c_failedRules = p_failedRules provider\<rparr>
                      this
                  else this)
           in set_refs (AList.delete id' (o_refs this1)) this1))"

text \<open>
  Modelled from the spec: \<open>findIndex\<close> of \<open>../utils\<close>, which is not among the sources.
  By the spec, unsubscribing a scope removes the first nested scope whose id matches
  and does nothing when there is none: the index of the first element that satisfies
  the predicate, or \<open>-1\<close>.
\<close>

fun findIndex :: "'a list \<Rightarrow> ('a \<Rightarrow> bool) \<Rightarrow> int" where
  "findIndex [] predicate = - 1"
| "findIndex (x # xs) predicate =
     (if predicate x then 0
      else (let idx = findIndex xs predicate in if idx = - 1 then - 1 else idx + 1))"

text \<open>\<open>arr.splice(idx, 1)\<close> for an index within the array.\<close>

definition splice1 :: "int \<Rightarrow> 'a list \<Rightarrow> 'a list" where
  "splice1 idx arr = take (nat idx) arr @ drop (nat idx + 1) arr"

definition unsubscribe :: "observer \<Rightarrow> string \<Rightarrow> string \<Rightarrow> observer" where
  "unsubscribe this id' kind =
     (if kind = ''provider'' then removeProvider this id'
      else
        (let idx = findIndex (o_observers this) (\<lambda>ob. o_id ob = id')
         in if idx \<noteq> - 1 then set_observers (splice1 idx (o_observers this)) this
            else this))"

subsection \<open>validate, reset and setErrors\<close>

text \<open>
  \<open>validate({ silent })\<close>: what the returned promise settles to. The calls on the
  providers and on the nested observers are all made before the results are awaited.
\<close>

fun validate ::
  "(ProviderInstance \<Rightarrow> string \<Rightarrow> ValidationResult promise) \<Rightarrow> observer \<Rightarrow> bool \<Rightarrow> bool promise"
  where
  "validate invoke (Observer i refs obs inact iproto errs fl dis) silent =
     then_promise
       (Promise_all
          (map (\<lambda>ref. then_promise
                         (invoke ref (if silent then ''validateSilent'' else ''validate''))
                         (\<lambda>r. valid r))
               (filter (\<lambda>r. \<not> p_disabled r) (values_of refs))
           @ map (\<lambda>ob. validate invoke ob silent) (filter (\<lambda>ob. \<not> o_disabled ob) obs)))
       (\<lambda>results. list_all (\<lambda>r. r) results)"


text \<open>
  The first loop of \<open>setErrors\<close>, over \<open>Object.keys(errors)\<close>: \<open>refs\<close> after it,
  and the fault that ended it, if any. \<open>errors[key] || []\<close> is \<open>errors[key]\<close> for
  every key of \<open>errors\<close>, whose values are arrays.
\<close>

fun setErrors_keys ::
  "(ProviderInstance \<Rightarrow> string list \<Rightarrow> ProviderInstance) \<Rightarrow> (string \<times> string list) list
     \<Rightarrow> string list \<Rightarrow> (string \<times> ProviderInstance) list
     \<Rightarrow> (string \<times> ProviderInstance) list \<times> fault option" where
  "setErrors_keys p_setErrors errors [] refs = (refs, None)"
| "setErrors_keys p_setErrors errors (key # keys) refs =
     (case get_plain refs key of
        Undefined \<Rightarrow> setErrors_keys p_setErrors errors keys refs
      | Inherited \<Rightarrow> (refs, Some (TypeError key))
      | Value provider \<Rightarrow>
          setErrors_keys p_setErrors errors keys
            (AList.update key
               (p_setErrors provider (case map_of errors key of None \<Rightarrow> [] | Some e \<Rightarrow> e))
               refs))"

text \<open>
  \<open>setErrors(errors)\<close>: the observer after the call, and the error thrown, if any.
  An error thrown in the first loop, or by a nested observer, ends the call: the
  nested observers that would have followed are not reached.
\<close>

fun setErrors ::
  "(ProviderInstance \<Rightarrow> string list \<Rightarrow> ProviderInstance) \<Rightarrow> observer
     \<Rightarrow> (string \<times> string list) list \<Rightarrow> observer \<times> fault option"
  and setErrors_observers ::
  "(ProviderInstance \<Rightarrow> string list \<Rightarrow> ProviderInstance) \<Rightarrow> observer list
     \<Rightarrow> (string \<times> string list) list \<Rightarrow> observer list \<times> fault option" where
  "setErrors p_setErrors (Observer i refs obs inact iproto errs fl dis) errors =
     (case setErrors_keys p_setErrors errors (keys_of errors) refs of
        (refs', Some fault) \<Rightarrow> (Observer i refs' obs inact iproto errs fl dis, Some fault)
      | (refs', None) \<Rightarrow>
          (case setErrors_observers p_setErrors obs errors of
             (obs', fault) \<Rightarrow> (Observer i refs' obs' inact iproto errs fl dis, fault)))"
| "setErrors_observers p_setErrors [] errors = ([], None)"
| "setErrors_observers p_setErrors (observer # obs) errors =
     (case setErrors p_setErrors observer errors of
        (observer', Some fault) \<Rightarrow> (observer' # obs, Some fault)
      | (observer', None) \<Rightarrow>
          (case setErrors_observers p_setErrors obs errors of
             (obs', fault) \<Rightarrow> (observer' # obs', fault)))"

subsection \<open>Sequences of subscribe and unsubscribe calls\<close>







subsection \<open>A small form\<close>

text \<open>
  The scenario of the spec: an observer with two providers, A (valid, no errors) and B
  (invalid, one error).
\<close>

definition flags_of_valid :: "bool \<Rightarrow> ValidationFlags" where
  "flags_of_valid v =
     [(''untouched'', True), (''touched'', False), (''dirty'', False), (''pristine'', True),
      (''valid'', v), (''invalid'', \<not> v), (''passed'', v), (''failed'', \<not> v),
      (''validated'', True), (''pending'', False), (''required'', False), (''changed'', False)]"

definition provider_A :: ProviderInstance where
  "provider_A = \<lparr>p_id = ''A'', p_persist = False, p_disabled = False,
     p_flags = flags_of_valid True, p_errors = [], p_failedRules = []\<rparr>"

definition provider_B :: ProviderInstance where
  "provider_B = \<lparr>p_id = ''B'', p_persist = True, p_disabled = False,
     p_flags = flags_of_valid False, p_errors = [''required''],
     p_failedRules = [(''required'', [''required''])]\<rparr>"

definition scenario_S :: observer where
  "scenario_S = Observer ''obs_0'' [(''A'', provider_A), (''B'', provider_B)] [] [] None
     (ObserverErrors [] None) [] False"

definition provider_B_new :: ProviderInstance where
  "provider_B_new = \<lparr>p_id = ''B'', p_persist = False, p_disabled = False,
     p_flags = flags_of_valid True, p_errors = [], p_failedRules = []\<rparr>"

definition cache_B :: InactiveRefCache where
  "cache_B = \<lparr>c_id = ''B'', c_flags = flags_of_valid False, c_errors = [''required''],
     c_failedRules = [(''required'', [''required''])]\<rparr>"

text \<open>
  The observer after B, which persists, was subscribed and unsubscribed and a new
  provider with the id B, which does not persist, was subscribed.
\<close>

definition stale_S :: observer where
  "stale_S = Observer [] [(''B'', provider_B_new)] [] [(''B'', cache_B)] None
     (ObserverErrors [] None) [] False"

text \<open>
  Outcomes of the providers' validation for the examples: the silent run resolves to
  whether the provider has no errors, the other run is rejected.
\<close>

definition invoke_example :: "ProviderInstance \<Rightarrow> string \<Rightarrow> ValidationResult promise" where
  "invoke_example ref name =
     (if name = ''validateSilent'' then Resolved \<lparr>valid = (p_errors ref = [])\<rparr> else Rejected)"






definition setErrors_example :: "ProviderInstance \<Rightarrow> string list \<Rightarrow> ProviderInstance" where
  "setErrors_example ref msgs = ref\<lparr>p_errors := msgs\<rparr>"

text \<open>Examples with two messages, a cached state of its own id and a nested observer.\<close>

definition provider_C :: ProviderInstance where
  "provider_C = \<lparr>p_id = ''C'', p_persist = False, p_disabled = False,
     p_flags = flags_of_valid False, p_errors = [''min'', ''max''],
     p_failedRules = [(''min'', [''min'']), (''max'', [''max''])]\<rparr>"

definition cache_D :: InactiveRefCache where
  "cache_D = \<lparr>c_id = ''D'', c_flags = flags_of_valid False, c_errors = [''required'', ''email''],
     c_failedRules = [(''required'', [''required'']), (''email'', [''email''])]\<rparr>"

definition cache_V :: InactiveRefCache where
  "cache_V = \<lparr>c_id = ''V'', c_flags = flags_of_valid True, c_errors = [], c_failedRules = []\<rparr>"

definition inner_S :: "bool \<Rightarrow> observer" where
  "inner_S v = Observer ''inner'' [] [] [] None
     (ObserverErrors [(''E'', Messages (if v then [] else [''a'', ''b'']))] None)
     [(''pristine'', True), (''dirty'', False), (''touched'', False), (''untouched'', True),
      (''valid'', v), (''invalid'', \<not> v), (''pending'', False), (''validated'', True),
      (''changed'', False), (''passed'', v), (''failed'', \<not> v)] False"

text \<open>A valid provider with an invalid cached state, and with an invalid nested observer.\<close>

definition cache_invalid_S :: observer where
  "cache_invalid_S = Observer ''f1'' [(''A'', provider_A)] [] [(''D'', cache_D)] None
     (ObserverErrors [] None) [] False"

definition nested_invalid_S :: observer where
  "nested_invalid_S = Observer ''f2'' [(''A'', provider_A)] [inner_S False] [] None
     (ObserverErrors [] None) [] False"

definition all_valid_S :: observer where
  "all_valid_S = Observer ''f3'' [(''A'', provider_A)] [inner_S True] [(''V'', cache_V)] None
     (ObserverErrors [] None) [] False"

definition three_kinds_S :: observer where
  "three_kinds_S = Observer ''f4'' [(''C'', provider_C)] [inner_S False] [(''D'', cache_D)] None
     (ObserverErrors [] None) [] False"

text \<open>An observer with the provider A and a nested observer that has a provider A too.\<close>

definition inner_A :: observer where
  "inner_A = Observer ''inner'' [(''A'', provider_A)] [] [] None (ObserverErrors [] None) [] False"

definition form_S :: observer where
  "form_S = Observer ''form'' [(''A'', provider_A)] [inner_A] [] None (ObserverErrors [] None) [] False"

text \<open>A persisting provider whose id is a name that every object inherits.\<close>

definition provider_toString :: ProviderInstance where
  "provider_toString = \<lparr>p_id = ''toString'', p_persist = True, p_disabled = False,
     p_flags = flags_of_valid True, p_errors = [], p_failedRules = []\<rparr>"

text \<open>
  An observer that has a provider registered under \<open>constructor\<close> and two nested
  observers that have not.
\<close>

definition provider_constructor :: ProviderInstance where
  "provider_constructor = \<lparr>p_id = ''constructor'', p_persist = False, p_disabled = False,
     p_flags = flags_of_valid True, p_errors = [], p_failedRules = []\<rparr>"

definition outer_S :: observer where
  "outer_S = Observer ''outer'' [(''constructor'', provider_constructor)] [inner_A, inner_A] []
     None (ObserverErrors [] None) [] False"

text \<open>A persisting provider registered under the id \<open>__proto__\<close>.\<close>

definition provider_proto :: "bool \<Rightarrow> ProviderInstance" where
  "provider_proto v = \<lparr>p_id = ''__proto__'', p_persist = True, p_disabled = False,
     p_flags = flags_of_valid v, p_errors = (if v then [] else [''required'']),
     p_failedRules = []\<rparr>"

definition proto_S :: observer where
  "proto_S = Observer [] [(''__proto__'', provider_proto False)] [] [] None
     (ObserverErrors [] None) [] False"

subsection \<open>The candidates of the spec\<close>

text \<open>
  The reductions of the spec, written over the three collections themselves: a flag
  is true in every candidate, or in some candidate, where the candidates are the
  active members, the cached states and the nested scopes.
\<close>

definition every_candidate :: "observer \<Rightarrow> string \<Rightarrow> bool" where
  "every_candidate this flag =
     ((\<forall>p \<in> set (values_of (o_refs this)). map_of (p_flags p) flag = Some True)
      \<and> (\<forall>c \<in> set (values_of (o_inactiveRefs this)). map_of (c_flags c) flag = Some True)
      \<and> (\<forall>ob \<in> set (o_observers this). map_of (o_flags ob) flag = Some True))"

definition some_candidate :: "observer \<Rightarrow> string \<Rightarrow> bool" where
  "some_candidate this flag =
     ((\<exists>p \<in> set (values_of (o_refs this)). map_of (p_flags p) flag = Some True)
      \<or> (\<exists>c \<in> set (values_of (o_inactiveRefs this)). map_of (c_flags c) flag = Some True)
      \<or> (\<exists>ob \<in> set (o_observers this). map_of (o_flags ob) flag = Some True))"

text \<open>
  The candidates of the spec with what it aggregates of each: the id and the errors of
  the active members, then of the cached states, then of the nested scopes.
\<close>

definition candidates :: "observer \<Rightarrow> (string \<times> ObserverErrorsValue) list" where
  "candidates this =
     map (\<lambda>p. (p_id p, Messages (p_errors p))) (values_of (o_refs this))
     @ map (\<lambda>c. (c_id c, Messages (c_errors c))) (values_of (o_inactiveRefs this))
     @ map (\<lambda>ob. (o_id ob, Nested (o_errors ob))) (o_observers this)"

section \<open>Properties\<close>

subsection \<open>Association lists\<close>

lemma map_of_fold_update_table:
  "map_of (fold (\<lambda>(k, m) acc. AList.update k (g k m) acc) tbl acc0) k =
     (case map_of (rev (map (\<lambda>(k, m). (k, g k m)) tbl)) k of
        None \<Rightarrow> map_of acc0 k | Some v \<Rightarrow> Some v)"
proof (induction tbl arbitrary: acc0)
  case Nil
  then show ?case by simp
next
  case (Cons e tbl)
  obtain k' m' where e: "e = (k', m')" by (cases e)
  show ?case
    by (simp add: e Cons.IH update_conv' map_add_def split: option.splits)
qed

lemma keys_fold_update_table:
  "fst ` set (fold (\<lambda>(k, m) acc. AList.update k (g k m) acc) tbl acc0) =
     fst ` set tbl \<union> fst ` set acc0"
proof (induction tbl arbitrary: acc0)
  case Nil
  then show ?case by simp
next
  case (Cons e tbl)
  obtain k' m' where e: "e = (k', m')" by (cases e)
  show ?case
    by (simp add: e Cons.IH dom_update)
qed

subsection \<open>C1: the flags are reduced by the strategy table\<close>

lemma watch_flags_lookup:
  "map_of (watch_flags xs) k =
     map_of (rev (map (\<lambda>(flag, method). (flag, array_method method (flag_truthy flag) xs))
       FLAGS_STRATEGIES)) k"
  unfolding watch_flags_def
  by (simp add: map_of_fold_update_table split: option.splits)

lemma every_vms:
  "list_all (flag_truthy flag) (vms this) = every_candidate this flag"
  by (simp add: vms_def list_all_iff flag_truthy_def every_candidate_def
      provider_vm_def cache_vm_def observer_vm_def ball_Un)

lemma some_vms:
  "list_ex (flag_truthy flag) (vms this) = some_candidate this flag"
  by (simp add: vms_def list_ex_iff flag_truthy_def some_candidate_def
      provider_vm_def cache_vm_def observer_vm_def bex_Un)

text \<open>
  C1. Whatever the refs, the cached states and the nested observers are, the flags
  computed by the watcher have exactly the eleven keys of the table; pristine,
  untouched, valid, validated and passed are true iff that flag is true in the flags
  of every provider in \<open>refs\<close>, of every cached state in \<open>inactiveRefs\<close> and of every
  nested observer, and dirty, touched, invalid, pending, changed and failed are true
  iff it is true in the flags of one of them.
\<close>

theorem C1_flags_by_strategy:
  "map_of (snd (watch this)) ''pristine'' = Some (every_candidate this ''pristine'')
   \<and> map_of (snd (watch this)) ''dirty'' = Some (some_candidate this ''dirty'')
   \<and> map_of (snd (watch this)) ''touched'' = Some (some_candidate this ''touched'')
   \<and> map_of (snd (watch this)) ''untouched'' = Some (every_candidate this ''untouched'')
   \<and> map_of (snd (watch this)) ''valid'' = Some (every_candidate this ''valid'')
   \<and> map_of (snd (watch this)) ''invalid'' = Some (some_candidate this ''invalid'')
   \<and> map_of (snd (watch this)) ''pending'' = Some (some_candidate this ''pending'')
   \<and> map_of (snd (watch this)) ''validated'' = Some (every_candidate this ''validated'')
   \<and> map_of (snd (watch this)) ''changed'' = Some (some_candidate this ''changed'')
   \<and> map_of (snd (watch this)) ''passed'' = Some (every_candidate this ''passed'')
   \<and> map_of (snd (watch this)) ''failed'' = Some (some_candidate this ''failed'')
   \<and> set (keys_of (snd (watch this))) = set (keys_of FLAGS_STRATEGIES)
   \<and> (map_of (snd (watch this)) ''valid'' = Some True
        \<longleftrightarrow> (\<forall>p \<in> set (values_of (o_refs this)). map_of (p_flags p) ''valid'' = Some True)
            \<and> (\<forall>c \<in> set (values_of (o_inactiveRefs this)). map_of (c_flags c) ''valid'' = Some True)
            \<and> (\<forall>ob \<in> set (o_observers this). map_of (o_flags ob) ''valid'' = Some True))
   \<and> (map_of (snd (watch this)) ''invalid'' = Some True
        \<longleftrightarrow> (\<exists>p \<in> set (values_of (o_refs this)). map_of (p_flags p) ''invalid'' = Some True)
            \<or> (\<exists>c \<in> set (values_of (o_inactiveRefs this)). map_of (c_flags c) ''invalid'' = Some True)
            \<or> (\<exists>ob \<in> set (o_observers this). map_of (o_flags ob) ''invalid'' = Some True))"
proof -
  let ?fl = "snd (watch this)"
  have fl: "?fl = watch_flags (vms this)"
    by (simp add: watch_def)
  have 1: "map_of ?fl ''pristine'' = Some (every_candidate this ''pristine'')"
    unfolding fl watch_flags_lookup by (simp add: FLAGS_STRATEGIES_def every_vms)
  have 2: "map_of ?fl ''dirty'' = Some (some_candidate this ''dirty'')"
    unfolding fl watch_flags_lookup by (simp add: FLAGS_STRATEGIES_def some_vms)
  have 3: "map_of ?fl ''touched'' = Some (some_candidate this ''touched'')"
    unfolding fl watch_flags_lookup by (simp add: FLAGS_STRATEGIES_def some_vms)
  have 4: "map_of ?fl ''untouched'' = Some (every_candidate this ''untouched'')"
    unfolding fl watch_flags_lookup by (simp add: FLAGS_STRATEGIES_def every_vms)
  have 5: "map_of ?fl ''valid'' = Some (every_candidate this ''valid'')"
    unfolding fl watch_flags_lookup by (simp add: FLAGS_STRATEGIES_def every_vms)
  have 6: "map_of ?fl ''invalid'' = Some (some_candidate this ''invalid'')"
    unfolding fl watch_flags_lookup by (simp add: FLAGS_STRATEGIES_def some_vms)
  have 7: "map_of ?fl ''pending'' = Some (some_candidate this ''pending'')"
    unfolding fl watch_flags_lookup by (simp add: FLAGS_STRATEGIES_def some_vms)
  have 8: "map_of ?fl ''validated'' = Some (every_candidate this ''validated'')"
    unfolding fl watch_flags_lookup by (simp add: FLAGS_STRATEGIES_def every_vms)
  have 9: "map_of ?fl ''changed'' = Some (some_candidate this ''changed'')"
    unfolding fl watch_flags_lookup by (simp add: FLAGS_STRATEGIES_def some_vms)
  have 10: "map_of ?fl ''passed'' = Some (every_candidate this ''passed'')"
    unfolding fl watch_flags_lookup by (simp add: FLAGS_STRATEGIES_def every_vms)
  have 11: "map_of ?fl ''failed'' = Some (some_candidate this ''failed'')"
    unfolding fl watch_flags_lookup by (simp add: FLAGS_STRATEGIES_def some_vms)
  have 12: "set (keys_of ?fl) = set (keys_of FLAGS_STRATEGIES)"
    unfolding fl watch_flags_def keys_of_def by (simp add: keys_fold_update_table)
  have 13: "map_of ?fl ''valid'' = Some True
      \<longleftrightarrow> (\<forall>p \<in> set (values_of (o_refs this)). map_of (p_flags p) ''valid'' = Some True)
          \<and> (\<forall>c \<in> set (values_of (o_inactiveRefs this)). map_of (c_flags c) ''valid'' = Some True)
          \<and> (\<forall>ob \<in> set (o_observers this). map_of (o_flags ob) ''valid'' = Some True)"
    unfolding 5 by (simp add: every_candidate_def)
  have 14: "map_of ?fl ''invalid'' = Some True
      \<longleftrightarrow> (\<exists>p \<in> set (values_of (o_refs this)). map_of (p_flags p) ''invalid'' = Some True)
          \<or> (\<exists>c \<in> set (values_of (o_inactiveRefs this)). map_of (c_flags c) ''invalid'' = Some True)
          \<or> (\<exists>ob \<in> set (o_observers this). map_of (o_flags ob) ''invalid'' = Some True)"
    unfolding 6 by (simp add: some_candidate_def)
  from 1 2 3 4 5 6 7 8 9 10 11 12 13 14 show ?thesis
    by blast
qed

theorem C1_flags_by_strategy_witness:
  "map_of (snd (watch scenario_S)) ''valid'' = Some False
   \<and> map_of (snd (watch scenario_S)) ''invalid'' = Some True
   \<and> map_of (snd (watch scenario_S)) ''pristine'' = Some True
   \<and> map_of (snd (watch cache_invalid_S)) ''valid'' = Some False
   \<and> map_of (snd (watch cache_invalid_S)) ''invalid'' = Some True
   \<and> map_of (snd (watch cache_invalid_S)) ''failed'' = Some True
   \<and> map_of (snd (watch nested_invalid_S)) ''valid'' = Some False
   \<and> map_of (snd (watch nested_invalid_S)) ''invalid'' = Some True
   \<and> map_of (snd (watch nested_invalid_S)) ''passed'' = Some False
   \<and> map_of (snd (watch all_valid_S)) ''valid'' = Some True
   \<and> map_of (snd (watch all_valid_S)) ''invalid'' = Some False
   \<and> map_of (snd (watch all_valid_S)) ''dirty'' = Some False"
proof -
  have ex: "o_refs scenario_S = [(''A'', provider_A), (''B'', provider_B)]"
    "o_inactiveRefs scenario_S = []" "o_observers scenario_S = []"
    "o_refs cache_invalid_S = [(''A'', provider_A)]"
    "o_inactiveRefs cache_invalid_S = [(''D'', cache_D)]" "o_observers cache_invalid_S = []"
    "o_refs nested_invalid_S = [(''A'', provider_A)]"
    "o_inactiveRefs nested_invalid_S = []" "o_observers nested_invalid_S = [inner_S False]"
    "o_refs all_valid_S = [(''A'', provider_A)]"
    "o_inactiveRefs all_valid_S = [(''V'', cache_V)]" "o_observers all_valid_S = [inner_S True]"
    by (simp_all add: scenario_S_def cache_invalid_S_def nested_invalid_S_def all_valid_S_def)
  have fl: "p_flags provider_A = flags_of_valid True" "p_flags provider_B = flags_of_valid False"
    "c_flags cache_D = flags_of_valid False" "c_flags cache_V = flags_of_valid True"
    by (simp_all add: provider_A_def provider_B_def cache_D_def cache_V_def)
  from C1_flags_by_strategy [of scenario_S] C1_flags_by_strategy [of cache_invalid_S]
    C1_flags_by_strategy [of nested_invalid_S] C1_flags_by_strategy [of all_valid_S]
  show ?thesis
    by (simp add: every_candidate_def some_candidate_def values_of_def ex fl
        flags_of_valid_def inner_S_def)
qed



subsection \<open>C2: the errors are keyed by the id of each candidate\<close>

lemma put_errors_lookup:
  "k \<noteq> ''__proto__'' \<Longrightarrow>
   map_of (own_errors (put_errors key v errors)) k =
     (if key = k then Some v else map_of (own_errors errors) k)"
  by (simp add: put_errors_def update_conv')

lemma put_errors_no_own_proto:
  "map_of (own_errors errors) ''__proto__'' = None \<Longrightarrow>
   map_of (own_errors (put_errors key v errors)) ''__proto__'' = None"
  by (simp add: put_errors_def update_conv')

lemma put_errors_keys:
  "map_of (own_errors errors) ''__proto__'' = None \<Longrightarrow>
   fst ` set (own_errors (put_errors key v errors)) =
     ({key} - {''__proto__''}) \<union> fst ` set (own_errors errors)"
  by (simp add: put_errors_def dom_update)

lemma fold_put_errors_lookup:
  "k \<noteq> ''__proto__'' \<Longrightarrow>
   map_of (own_errors (fold (\<lambda>x errors. put_errors (kf x) (vf x) errors) xs errors0)) k =
     (case map_of (rev (map (\<lambda>x. (kf x, vf x)) xs)) k of
        None \<Rightarrow> map_of (own_errors errors0) k | Some v \<Rightarrow> Some v)"
  by (induction xs arbitrary: errors0)
     (simp_all add: put_errors_lookup map_add_def split: option.splits)

lemma fold_put_errors_keys:
  "map_of (own_errors errors0) ''__proto__'' = None \<Longrightarrow>
   fst ` set (own_errors (fold (\<lambda>x errors. put_errors (kf x) (vf x) errors) xs errors0)) =
     (kf ` set xs - {''__proto__''}) \<union> fst ` set (own_errors errors0)"
proof (induction xs arbitrary: errors0)
  case Nil
  then show ?case by simp
next
  case (Cons x xs)
  from Cons.prems
  have "map_of (own_errors (put_errors (kf x) (vf x) errors0)) ''__proto__'' = None"
    by (rule put_errors_no_own_proto)
  from Cons.IH [OF this] Cons.prems show ?case
    by (auto simp add: put_errors_keys)
qed

lemma vms_candidates:
  "map (\<lambda>v. (vm_id v, vm_errors v)) (vms this) = candidates this"
  by (simp add: vms_def candidates_def provider_vm_def cache_vm_def observer_vm_def)

lemma watch_errors_lookup:
  "k \<noteq> ''__proto__'' \<Longrightarrow>
   map_of (own_errors (fst (watch this))) k = map_of (rev (candidates this)) k"
  unfolding watch_def watch_errors_def
  by (simp add: fold_put_errors_lookup vms_candidates rev_map [symmetric] split: option.splits)

lemma watch_errors_last:
  assumes "candidates this = xs @ (i, e) # ys" and "i \<notin> fst ` set ys" and "i \<noteq> ''__proto__''"
  shows "map_of (own_errors (fst (watch this))) i = Some e"
proof -
  have "map_of (rev ys) i = None"
    using assms(2) by (simp add: map_of_eq_None_iff)
  with assms(1,3) show ?thesis
    by (simp add: watch_errors_lookup map_add_def)
qed

lemma watch_errors_keys:
  "fst ` set (own_errors (fst (watch this))) = fst ` set (candidates this) - {''__proto__''}"
proof -
  have "vm_id ` set (vms this) = fst ` set (candidates this)"
    unfolding vms_candidates [symmetric] by (simp add: image_image)
  then show ?thesis
    unfolding watch_def watch_errors_def by (simp add: fold_put_errors_keys)
qed

lemma candidate_ids:
  "fst ` set (candidates this) =
     p_id ` set (values_of (o_refs this))
     \<union> c_id ` set (values_of (o_inactiveRefs this))
     \<union> o_id ` set (o_observers this)"
  unfolding candidates_def set_append set_map image_Un image_image fst_conv
  by (simp only: Un_assoc)

lemma provider_candidate:
  "p \<in> set (values_of (o_refs this)) \<Longrightarrow>
   (p_id p, Messages (p_errors p)) \<in> set (candidates this)"
  unfolding candidates_def by simp

lemma cache_candidate:
  "c \<in> set (values_of (o_inactiveRefs this)) \<Longrightarrow>
   (c_id c, Messages (c_errors c)) \<in> set (candidates this)"
  unfolding candidates_def by simp

lemma observer_candidate:
  "ob \<in> set (o_observers this) \<Longrightarrow> (o_id ob, Nested (o_errors ob)) \<in> set (candidates this)"
  unfolding candidates_def by simp

text \<open>
  C2, as the code has it. The candidates are the providers in \<open>refs\<close>, then the
  cached states in \<open>inactiveRefs\<close>, then the nested observers. The keys of the
  computed \<open>errors\<close> are the ids of these candidates (other than \<open>__proto__\<close>), and
  such an id is mapped to the whole errors of the last candidate that has it. So when
  the ids of the candidates are pairwise distinct (and none is \<open>__proto__\<close>), the id of
  every provider is mapped to all its errors, the id of every cached state to all its
  errors, and the id of every nested observer to its \<open>errors\<close> object.
\<close>

theorem C2_errors_by_id:
  "set (keys_of (own_errors (fst (watch this)))) =
       (p_id ` set (values_of (o_refs this))
        \<union> c_id ` set (values_of (o_inactiveRefs this))
        \<union> o_id ` set (o_observers this)) - {''__proto__''}
   \<and> (\<forall>xs i e ys. candidates this = xs @ (i, e) # ys \<and> i \<notin> fst ` set ys \<and> i \<noteq> ''__proto__''
         \<longrightarrow> map_of (own_errors (fst (watch this))) i = Some e)
   \<and> (distinct (map fst (candidates this)) \<and> ''__proto__'' \<notin> fst ` set (candidates this)
         \<longrightarrow> (\<forall>p \<in> set (values_of (o_refs this)).
                 map_of (own_errors (fst (watch this))) (p_id p) = Some (Messages (p_errors p)))
             \<and> (\<forall>c \<in> set (values_of (o_inactiveRefs this)).
                 map_of (own_errors (fst (watch this))) (c_id c) = Some (Messages (c_errors c)))
             \<and> (\<forall>ob \<in> set (o_observers this).
                 map_of (own_errors (fst (watch this))) (o_id ob) = Some (Nested (o_errors ob))))"
proof -
  let ?E = "own_errors (fst (watch this))"
  have keys: "set (keys_of ?E) =
      (p_id ` set (values_of (o_refs this))
        \<union> c_id ` set (values_of (o_inactiveRefs this))
        \<union> o_id ` set (o_observers this)) - {''__proto__''}"
    unfolding candidate_ids [symmetric] keys_of_def set_map by (rule watch_errors_keys)
  have last: "\<forall>xs i e ys. candidates this = xs @ (i, e) # ys \<and> i \<notin> fst ` set ys \<and> i \<noteq> ''__proto__''
         \<longrightarrow> map_of ?E i = Some e"
    using watch_errors_last by blast
  have each: "map_of ?E i = Some e"
    if d: "distinct (map fst (candidates this))"
      and n: "''__proto__'' \<notin> fst ` set (candidates this)"
      and m: "(i, e) \<in> set (candidates this)" for i e
  proof -
    from m obtain xs ys where split: "candidates this = xs @ (i, e) # ys"
      by (auto simp add: in_set_conv_decomp)
    with d have "i \<notin> fst ` set ys"
      by auto
    moreover from n m have "i \<noteq> ''__proto__''"
      by force
    ultimately show ?thesis
      using split by (intro watch_errors_last)
  qed
  have groups:
    "distinct (map fst (candidates this)) \<and> ''__proto__'' \<notin> fst ` set (candidates this)
         \<longrightarrow> (\<forall>p \<in> set (values_of (o_refs this)).
                 map_of ?E (p_id p) = Some (Messages (p_errors p)))
             \<and> (\<forall>c \<in> set (values_of (o_inactiveRefs this)).
                 map_of ?E (c_id c) = Some (Messages (c_errors c)))
             \<and> (\<forall>ob \<in> set (o_observers this).
                 map_of ?E (o_id ob) = Some (Nested (o_errors ob)))"
  proof (intro impI conjI ballI; elim conjE)
    fix p assume "distinct (map fst (candidates this))"
      "''__proto__'' \<notin> fst ` set (candidates this)" "p \<in> set (values_of (o_refs this))"
    then show "map_of ?E (p_id p) = Some (Messages (p_errors p))"
      by (intro each provider_candidate)
  next
    fix c assume "distinct (map fst (candidates this))"
      "''__proto__'' \<notin> fst ` set (candidates this)" "c \<in> set (values_of (o_inactiveRefs this))"
    then show "map_of ?E (c_id c) = Some (Messages (c_errors c))"
      by (intro each cache_candidate)
  next
    fix ob assume "distinct (map fst (candidates this))"
      "''__proto__'' \<notin> fst ` set (candidates this)" "ob \<in> set (o_observers this)"
    then show "map_of ?E (o_id ob) = Some (Nested (o_errors ob))"
      by (intro each observer_candidate)
  qed
  show ?thesis
    by (intro conjI) (rule keys, rule last, rule groups)
qed

theorem C2_errors_by_id_witness:
  "distinct (map fst (candidates three_kinds_S))
   \<and> ''__proto__'' \<notin> fst ` set (candidates three_kinds_S)
   \<and> provider_C \<in> set (values_of (o_refs three_kinds_S))
   \<and> map_of (own_errors (fst (watch three_kinds_S))) ''C'' = Some (Messages [''min'', ''max''])
   \<and> cache_D \<in> set (values_of (o_inactiveRefs three_kinds_S))
   \<and> map_of (own_errors (fst (watch three_kinds_S))) ''D''
       = Some (Messages [''required'', ''email''])
   \<and> inner_S False \<in> set (o_observers three_kinds_S)
   \<and> map_of (own_errors (fst (watch three_kinds_S))) ''inner''
       = Some (Nested (ObserverErrors [(''E'', Messages [''a'', ''b''])] None))
   \<and> candidates stale_S = [(''B'', Messages [])] @ (''B'', Messages [''required'']) # []
   \<and> map_of (own_errors (fst (watch stale_S))) ''B'' = Some (Messages [''required''])"
proof -
  have c: "candidates three_kinds_S =
      [(''C'', Messages [''min'', ''max'']), (''D'', Messages [''required'', ''email'']),
       (''inner'', Nested (ObserverErrors [(''E'', Messages [''a'', ''b''])] None))]"
    by (simp add: candidates_def three_kinds_S_def values_of_def provider_C_def cache_D_def
        inner_S_def)
  have d: "distinct (map fst (candidates three_kinds_S))
      \<and> ''__proto__'' \<notin> fst ` set (candidates three_kinds_S)"
    by (simp add: c)
  have m: "provider_C \<in> set (values_of (o_refs three_kinds_S))"
    "cache_D \<in> set (values_of (o_inactiveRefs three_kinds_S))"
    "inner_S False \<in> set (o_observers three_kinds_S)"
    by (simp_all add: three_kinds_S_def values_of_def)
  note t = C2_errors_by_id [of three_kinds_S, THEN conjunct2, THEN conjunct2, rule_format, OF d]
  from t [THEN conjunct1, rule_format, OF m(1)]
  have 1: "map_of (own_errors (fst (watch three_kinds_S))) ''C'' = Some (Messages [''min'', ''max''])"
    by (simp add: provider_C_def)
  from t [THEN conjunct2, THEN conjunct1, rule_format, OF m(2)]
  have 2: "map_of (own_errors (fst (watch three_kinds_S))) ''D''
      = Some (Messages [''required'', ''email''])"
    by (simp add: cache_D_def)
  from t [THEN conjunct2, THEN conjunct2, rule_format, OF m(3)]
  have 3: "map_of (own_errors (fst (watch three_kinds_S))) ''inner''
      = Some (Nested (ObserverErrors [(''E'', Messages [''a'', ''b''])] None))"
    by (simp add: inner_S_def)
  have s: "candidates stale_S = [(''B'', Messages [])] @ (''B'', Messages [''required'']) # []"
    by (simp add: candidates_def stale_S_def values_of_def provider_B_new_def cache_B_def)
  have "candidates stale_S = [(''B'', Messages [])] @ (''B'', Messages [''required'']) # []
      \<and> ''B'' \<notin> fst ` set [] \<and> ''B'' \<noteq> ''__proto__''"
    using s by simp
  from C2_errors_by_id [of stale_S, THEN conjunct2, THEN conjunct1, rule_format, OF this]
  have 4: "map_of (own_errors (fst (watch stale_S))) ''B'' = Some (Messages [''required''])" .
  from d m 1 2 3 s 4 show ?thesis
    by blast
qed

text \<open>
  C2 as the spec states it fails in \<open>stale_S\<close>: the provider registered under B is a
  candidate and has no errors, and the computed \<open>errors\<close> map B to the errors of the
  cached state, which follows it among the candidates.
\<close>

theorem C2_errors_by_id_counterexample:
  "provider_B_new \<in> set (values_of (o_refs stale_S))
   \<and> map_of (own_errors (fst (watch stale_S))) (p_id provider_B_new)
        \<noteq> Some (Messages (p_errors provider_B_new))
   \<and> map_of (own_errors (fst (watch stale_S))) (p_id provider_B_new)
        = Some (Messages (c_errors cache_B))"
  by (simp add: watch_def watch_errors_def vms_def stale_S_def values_of_def provider_vm_def
      cache_vm_def provider_B_new_def cache_B_def put_errors_def)


subsection \<open>C3: validate\<close>

lemma then_promise_every:
  "then_promise (Promise_all ps) (\<lambda>results. list_all (\<lambda>r. r) results) =
     (if Rejected \<in> set ps then Rejected else Resolved (\<forall>p \<in> set ps. p = Resolved True))"
proof (induction ps)
  case Nil
  then show ?case by simp
next
  case (Cons p ps)
  show ?case
  proof (cases p)
    case Rejected
    then show ?thesis by simp
  next
    case (Resolved x)
    show ?thesis
    proof (cases "Promise_all ps")
      case Rejected
      with Cons.IH Resolved show ?thesis
        by (simp split: if_splits)
    next
      case (Resolved xs)
      with Cons.IH \<open>p = Resolved x\<close> show ?thesis
        by (auto split: if_splits)
    qed
  qed
qed

lemma validate_unfold:
  "validate invoke this silent =
     then_promise
       (Promise_all
          (map (\<lambda>ref. then_promise
                         (invoke ref (if silent then ''validateSilent'' else ''validate''))
                         (\<lambda>r. valid r))
               (filter (\<lambda>r. \<not> p_disabled r) (values_of (o_refs this)))
           @ map (\<lambda>ob. validate invoke ob silent)
               (filter (\<lambda>ob. \<not> o_disabled ob) (o_observers this))))
       (\<lambda>results. list_all (\<lambda>r. r) results)"
  by (cases this) simp

lemma then_promise_valid_True:
  "then_promise p (\<lambda>r. valid r) = Resolved True \<longleftrightarrow> (\<exists>r. p = Resolved r \<and> valid r)"
  by (cases p) auto

lemma then_promise_Rejected:
  "then_promise p f = Rejected \<longleftrightarrow> p = Rejected"
  "Rejected = then_promise p f \<longleftrightarrow> p = Rejected"
  by (cases p; auto)+

lemma validate_cong_invoke:
  "(\<And>ref. \<not> p_disabled ref \<Longrightarrow>
      invoke ref (if silent then ''validateSilent'' else ''validate'')
        = invoke' ref (if silent then ''validateSilent'' else ''validate''))
   \<Longrightarrow> validate invoke this silent = validate invoke' this silent"
proof (induction invoke this silent rule: validate.induct)
  case (1 invoke i refs obs inact iproto errs fl dis silent)
  have leaves:
    "map (\<lambda>ref. then_promise
                   (invoke ref (if silent then ''validateSilent'' else ''validate''))
                   (\<lambda>r. valid r))
         (filter (\<lambda>r. \<not> p_disabled r) (values_of refs))
     = map (\<lambda>ref. then_promise
                     (invoke' ref (if silent then ''validateSilent'' else ''validate''))
                     (\<lambda>r. valid r))
         (filter (\<lambda>r. \<not> p_disabled r) (values_of refs))"
    by (rule map_cong) (simp_all add: "1.prems")
  have nested:
    "map (\<lambda>ob. validate invoke ob silent) (filter (\<lambda>ob. \<not> o_disabled ob) obs)
     = map (\<lambda>ob. validate invoke' ob silent) (filter (\<lambda>ob. \<not> o_disabled ob) obs)"
    by (rule map_cong) (simp_all add: "1.IH" "1.prems")
  show ?case
    by (simp only: validate.simps leaves nested)
qed

text \<open>
  C3. With \<open>name\<close> the method chosen by \<open>silent\<close>, the promise of \<open>validate\<close> is
  settled by the outcomes of \<open>name\<close> on the providers in \<open>refs\<close> that are not disabled
  and of \<open>validate({ silent })\<close> on the nested observers that are not disabled, and by
  nothing else: it is rejected when one of these outcomes is rejected, and otherwise
  resolves to whether every provider's result is valid and every nested result is
  true. So it resolves to true iff every such outcome resolved and was truthy; with
  no such provider and no such observer it resolves to true; and the outcomes of the
  other method and of the disabled providers do not matter.
\<close>

theorem C3_validate:
  "(let name = (if silent then ''validateSilent'' else ''validate'');
        leaves = filter (\<lambda>r. \<not> p_disabled r) (values_of (o_refs this));
        nested = filter (\<lambda>ob. \<not> o_disabled ob) (o_observers this)
    in validate invoke this silent =
         (if (\<exists>ref \<in> set leaves. invoke ref name = Rejected)
             \<or> (\<exists>ob \<in> set nested. validate invoke ob silent = Rejected)
          then Rejected
          else Resolved ((\<forall>ref \<in> set leaves. \<exists>r. invoke ref name = Resolved r \<and> valid r)
                         \<and> (\<forall>ob \<in> set nested. validate invoke ob silent = Resolved True)))
       \<and> (validate invoke this silent = Resolved True \<longleftrightarrow>
            (\<forall>ref \<in> set leaves. \<exists>r. invoke ref name = Resolved r \<and> valid r)
            \<and> (\<forall>ob \<in> set nested. validate invoke ob silent = Resolved True))
       \<and> (leaves = [] \<and> nested = [] \<longrightarrow> validate invoke this silent = Resolved True)
       \<and> ((\<forall>ref. \<not> p_disabled ref \<longrightarrow> invoke ref name = invoke' ref name)
            \<longrightarrow> validate invoke this silent = validate invoke' this silent))"
proof -
  define name where "name = (if silent then ''validateSilent'' else ''validate'')"
  define leaves where "leaves = filter (\<lambda>r. \<not> p_disabled r) (values_of (o_refs this))"
  define nested where "nested = filter (\<lambda>ob. \<not> o_disabled ob) (o_observers this)"
  define ps where
    "ps = map (\<lambda>ref. then_promise (invoke ref name) (\<lambda>r. valid r)) leaves
          @ map (\<lambda>ob. validate invoke ob silent) nested"
  have v: "validate invoke this silent =
      (if Rejected \<in> set ps then Rejected else Resolved (\<forall>p \<in> set ps. p = Resolved True))"
    unfolding ps_def name_def leaves_def nested_def
    by (subst validate_unfold) (rule then_promise_every)
  have rej: "Rejected \<in> set ps \<longleftrightarrow>
      (\<exists>ref \<in> set leaves. invoke ref name = Rejected)
      \<or> (\<exists>ob \<in> set nested. validate invoke ob silent = Rejected)"
    unfolding ps_def by (auto simp add: then_promise_Rejected image_iff eq_commute [of Rejected])
  have all: "(\<forall>p \<in> set ps. p = Resolved True) \<longleftrightarrow>
      (\<forall>ref \<in> set leaves. \<exists>r. invoke ref name = Resolved r \<and> valid r)
      \<and> (\<forall>ob \<in> set nested. validate invoke ob silent = Resolved True)"
    unfolding ps_def by (auto simp add: then_promise_valid_True ball_Un)
  have full: "validate invoke this silent =
      (if (\<exists>ref \<in> set leaves. invoke ref name = Rejected)
          \<or> (\<exists>ob \<in> set nested. validate invoke ob silent = Rejected)
       then Rejected
       else Resolved ((\<forall>ref \<in> set leaves. \<exists>r. invoke ref name = Resolved r \<and> valid r)
                      \<and> (\<forall>ob \<in> set nested. validate invoke ob silent = Resolved True)))"
    unfolding v rej all ..
  have iff: "validate invoke this silent = Resolved True \<longleftrightarrow>
      (\<forall>ref \<in> set leaves. \<exists>r. invoke ref name = Resolved r \<and> valid r)
      \<and> (\<forall>ob \<in> set nested. validate invoke ob silent = Resolved True)"
  proof (cases "Rejected \<in> set ps")
    case True
    then obtain p where "p \<in> set ps" "p \<noteq> Resolved True"
      by auto
    then have "\<not> (\<forall>p \<in> set ps. p = Resolved True)"
      by blast
    with True show ?thesis
      unfolding all [symmetric] by (simp add: v)
  next
    case False
    then show ?thesis
      unfolding all [symmetric] by (simp add: v)
  qed
  have empty: "validate invoke this silent = Resolved True" if "leaves = []" "nested = []"
    using that by (simp add: iff)
  have cong: "validate invoke this silent = validate invoke' this silent"
    if "\<forall>ref. \<not> p_disabled ref \<longrightarrow> invoke ref name = invoke' ref name"
    using that unfolding name_def by (intro validate_cong_invoke) simp
  show ?thesis
    unfolding Let_def name_def [symmetric] leaves_def [symmetric] nested_def [symmetric]
    using full iff empty cong by blast
qed

theorem C3_validate_witness:
  "validate invoke_example scenario_S True = Resolved False
   \<and> validate invoke_example (data False) False = Resolved True
   \<and> validate invoke_example scenario_S False = Rejected"
  using C3_validate [of True scenario_S invoke_example invoke_example]
    C3_validate [of False "data False" invoke_example invoke_example]
    C3_validate [of False scenario_S invoke_example invoke_example]
  by (simp add: Let_def scenario_S_def data_def values_of_def invoke_example_def
      provider_A_def provider_B_def del: validate.simps)




subsection \<open>Fields after an assignment\<close>

lemma set_refs_sel [simp]:
  "o_refs (set_refs r this) = r"
  "o_inactiveRefs (set_refs r this) = o_inactiveRefs this"
  "o_inactiveRefs_proto (set_refs r this) = o_inactiveRefs_proto this"
  "o_observers (set_refs r this) = o_observers this"
  "o_id (set_refs r this) = o_id this"
  "o_errors (set_refs r this) = o_errors this"
  "o_flags (set_refs r this) = o_flags this"
  "o_disabled (set_refs r this) = o_disabled this"
  by (cases this; simp)+

lemma set_inactiveRefs_sel [simp]:
  "o_refs (set_inactiveRefs c this) = o_refs this"
  "o_inactiveRefs (set_inactiveRefs c this) = c"
  "o_inactiveRefs_proto (set_inactiveRefs c this) = o_inactiveRefs_proto this"
  "o_observers (set_inactiveRefs c this) = o_observers this"
  "o_id (set_inactiveRefs c this) = o_id this"
  "o_errors (set_inactiveRefs c this) = o_errors this"
  "o_flags (set_inactiveRefs c this) = o_flags this"
  "o_disabled (set_inactiveRefs c this) = o_disabled this"
  by (cases this; simp)+

lemma set_inactiveRefs_proto_sel [simp]:
  "o_refs (set_inactiveRefs_proto c this) = o_refs this"
  "o_inactiveRefs (set_inactiveRefs_proto c this) = o_inactiveRefs this"
  "o_inactiveRefs_proto (set_inactiveRefs_proto c this) = c"
  "o_observers (set_inactiveRefs_proto c this) = o_observers this"
  "o_id (set_inactiveRefs_proto c this) = o_id this"
  "o_errors (set_inactiveRefs_proto c this) = o_errors this"
  "o_flags (set_inactiveRefs_proto c this) = o_flags this"
  "o_disabled (set_inactiveRefs_proto c this) = o_disabled this"
  by (cases this; simp)+

lemma set_observers_sel [simp]:
  "o_refs (set_observers obs this) = o_refs this"
  "o_inactiveRefs (set_observers obs this) = o_inactiveRefs this"
  "o_inactiveRefs_proto (set_observers obs this) = o_inactiveRefs_proto this"
  "o_observers (set_observers obs this) = obs"
  "o_id (set_observers obs this) = o_id this"
  "o_errors (set_observers obs this) = o_errors this"
  "o_flags (set_observers obs this) = o_flags this"
  "o_disabled (set_observers obs this) = o_disabled this"
  by (cases this; simp)+

lemma set_refs_twice [simp]:
  "set_refs r (set_refs r' this) = set_refs r this"
  by (cases this) simp

lemma set_refs_same [simp]:
  "set_refs (o_refs this) this = this"
  by (cases this) simp

subsection \<open>Reads\<close>

lemma get_plain_own:
  "map_of obj key = Some v \<Longrightarrow> get_plain obj key = Value v"
  by (simp add: get_plain_def)

lemma get_plain_not_own:
  "map_of obj key = None \<Longrightarrow> get_plain obj key = Undefined \<or> get_plain obj key = Inherited"
  by (simp add: get_plain_def)

lemma get_plain_Value:
  "get_plain obj key = Value v \<longleftrightarrow> map_of obj key = Some v"
  by (simp add: get_plain_def split: option.splits)



lemma get_inactiveRefs_set_refs [simp]:
  "get_inactiveRefs (set_refs r this) key = get_inactiveRefs this key"
  by (simp add: get_inactiveRefs_def cong: option.case_cong)

lemma put_inactiveRefs_sel [simp]:
  "o_refs (put_inactiveRefs key state this) = o_refs this"
  "o_observers (put_inactiveRefs key state this) = o_observers this"
  "o_id (put_inactiveRefs key state this) = o_id this"
  "o_errors (put_inactiveRefs key state this) = o_errors this"
  "o_flags (put_inactiveRefs key state this) = o_flags this"
  "o_disabled (put_inactiveRefs key state this) = o_disabled this"
  by (simp_all add: put_inactiveRefs_def)





subsection \<open>subscribe, case by case\<close>

lemma restore_Undefined:
  "get_inactiveRefs this (p_id p) = Undefined \<Longrightarrow> restoreProviderState this p = Inr (this, p)"
  by (simp add: restoreProviderState_def)

lemma restore_Inherited:
  "get_inactiveRefs this (p_id p) = Inherited \<Longrightarrow>
   restoreProviderState this p = Inl (Inherited_state (p_id p))"
  by (simp add: restoreProviderState_def)



lemma subscribe_no_entry:
  "kind \<noteq> ''observer'' \<Longrightarrow> get_inactiveRefs this (p_id p) = Undefined \<Longrightarrow>
   subscribe this (ProviderInstance p) kind =
     Some (set_refs (AList.update (p_id p) p (o_refs this)) this, ProviderInstance p)"
  by (simp add: subscribe_def restore_Undefined Let_def)

lemma subscribe_inherited:
  "kind \<noteq> ''observer'' \<Longrightarrow> p_persist p \<Longrightarrow> get_inactiveRefs this (p_id p) = Inherited \<Longrightarrow>
   subscribe this (ProviderInstance p) kind = None"
  by (simp add: subscribe_def restore_Inherited Let_def)


lemma removeProvider_absent:
  "map_of (o_refs this) id' = None \<Longrightarrow> removeProvider this id' = this"
proof -
  assume absent: "map_of (o_refs this) id' = None"
  then have "AList.delete id' (o_refs this) = o_refs this"
    by (simp add: map_of_eq_None_iff)
  with absent show ?thesis
    by (simp add: removeProvider_def get_plain_def)
qed

lemma removeProvider_present:
  "map_of (o_refs this) id' = Some provider \<Longrightarrow>
   removeProvider this id' =
     set_refs (AList.delete id' (o_refs this))
       (if p_persist provider then
          put_inactiveRefs id'
            \<lparr>c_id = id', c_flags = p_flags provider, c_errors = p_errors provider,
             c_failedRules = p_failedRules provider\<rparr>
            this
        else this)"
  by (simp add: removeProvider_def get_plain_def Let_def)


subsection \<open>The key \<open>__proto__\<close>\<close>

text \<open>
  Removing the persisting provider registered under \<open>__proto__\<close> stores its state as
  the prototype of \<open>inactiveRefs\<close>, not as an entry; a persisting provider subscribed
  under that id is restored from it; and the watcher puts the errors of such a
  provider in the prototype of \<open>errors\<close>, not under a key.
\<close>

lemma proto_S_unsubscribe:
  "o_inactiveRefs (unsubscribe proto_S ''__proto__'' ''provider'') = []
   \<and> o_inactiveRefs_proto (unsubscribe proto_S ''__proto__'' ''provider'')
       = Some \<lparr>c_id = ''__proto__'', c_flags = flags_of_valid False,
               c_errors = [''required''], c_failedRules = []\<rparr>
   \<and> o_refs (unsubscribe proto_S ''__proto__'' ''provider'') = []"
  by (simp add: unsubscribe_def removeProvider_def get_plain_def put_inactiveRefs_def
      proto_S_def provider_proto_def Let_def)

lemma proto_S_restore:
  "map_option snd
     (subscribe (unsubscribe proto_S ''__proto__'' ''provider'')
        (ProviderInstance (provider_proto True)) ''provider'')
   = Some (ProviderInstance (provider_proto False))"
  by (simp add: subscribe_def restoreProviderState_def get_inactiveRefs_def setFlags_def
      applyResult_def unsubscribe_def removeProvider_def get_plain_def put_inactiveRefs_def
      proto_S_def provider_proto_def Let_def)

lemma proto_S_reads:
  "get_inactiveRefs (unsubscribe proto_S ''__proto__'' ''provider'') ''__proto__''
     = Value \<lparr>c_id = ''__proto__'', c_flags = flags_of_valid False,
              c_errors = [''required''], c_failedRules = []\<rparr>
   \<and> get_inactiveRefs (unsubscribe proto_S ''__proto__'' ''provider'') ''id'' = Inherited
   \<and> get_inactiveRefs (unsubscribe proto_S ''__proto__'' ''provider'') ''flags'' = Inherited
   \<and> get_inactiveRefs (unsubscribe proto_S ''__proto__'' ''provider'') ''errors'' = Inherited
   \<and> get_inactiveRefs (unsubscribe proto_S ''__proto__'' ''provider'') ''failedRules'' = Inherited
   \<and> get_inactiveRefs (unsubscribe proto_S ''__proto__'' ''provider'') ''valueOf'' = Inherited
   \<and> get_inactiveRefs (unsubscribe proto_S ''__proto__'' ''provider'') ''B'' = Undefined
   \<and> get_inactiveRefs proto_S ''__proto__'' = Inherited
   \<and> get_inactiveRefs proto_S ''id'' = Undefined"
  by (simp add: proto_S_unsubscribe get_inactiveRefs_def get_plain_def
      Object_prototype_names_def)
     (simp add: proto_S_def get_plain_def Object_prototype_names_def)

lemma proto_S_watch:
  "own_errors (fst (watch proto_S)) = []
   \<and> proto_errors (fst (watch proto_S)) = Some (Messages [''required''])"
  by (simp add: watch_def watch_errors_def vms_def values_of_def provider_vm_def
      put_errors_def proto_S_def provider_proto_def)

subsection \<open>C4: a persisting subscriber is restored from the cache\<close>




subsection \<open>C10: subscribing a persisting provider that has no cached state\<close>

text \<open>
  What holds of C10: subscribing, with a kind other than 'observer', a provider whose
  id reads \<open>undefined\<close> in \<open>inactiveRefs\<close> changes only the entry of \<open>refs\<close> under
  that id, which becomes the provider: \<open>restoreProviderState\<close> returns at once, so the
  provider is returned as it was passed.
\<close>

lemma subscribe_without_entry:
  assumes "kind \<noteq> ''observer''" and "get_inactiveRefs this (p_id p) = Undefined"
  shows "\<exists>this'. subscribe this (ProviderInstance p) kind = Some (this', ProviderInstance p)
      \<and> restoreProviderState (set_refs (AList.update (p_id p) p (o_refs this)) this) p
          = Inr (set_refs (AList.update (p_id p) p (o_refs this)) this, p)
      \<and> o_refs this' = AList.update (p_id p) p (o_refs this)
      \<and> map_of (o_refs this') (p_id p) = Some p
      \<and> (\<forall>k. k \<noteq> p_id p \<longrightarrow> map_of (o_refs this') k = map_of (o_refs this) k)
      \<and> o_inactiveRefs this' = o_inactiveRefs this
      \<and> o_inactiveRefs_proto this' = o_inactiveRefs_proto this
      \<and> o_observers this' = o_observers this
      \<and> o_id this' = o_id this \<and> o_errors this' = o_errors this
      \<and> o_flags this' = o_flags this \<and> o_disabled this' = o_disabled this"
  using subscribe_no_entry [OF assms(1) assms(2)] assms(2)
  by (simp add: update_conv' restore_Undefined)

text \<open>
  C10 does not hold of the code for an id that every object inherits. The provider
  \<open>provider_toString\<close> persists and \<open>inactiveRefs\<close> has no entry at all, yet
  \<open>this.inactiveRefs['toString']\<close> reads the inherited function, which is truthy:
  \<open>if (!state) return\<close> does not return, and \<open>setFlags\<close> and \<open>applyResult\<close> are
  called on the provider with what is no cached state.
\<close>

theorem C10_subscribe_inherited_id:
  "p_persist provider_toString
   \<and> o_inactiveRefs (data False) = []
   \<and> get_inactiveRefs (data False) (p_id provider_toString) = Inherited
   \<and> restoreProviderState
        (set_refs (AList.update (p_id provider_toString) provider_toString (o_refs (data False)))
           (data False))
        provider_toString
       = Inl (Inherited_state ''toString'')
   \<and> subscribe (data False) (ProviderInstance provider_toString) ''provider'' = None"
proof -
  have p: "p_persist provider_toString" and i: "p_id provider_toString = ''toString''"
    by (simp_all add: provider_toString_def)
  have e: "o_inactiveRefs (data False) = []"
    by (simp add: data_def)
  have g: "get_inactiveRefs (data False) (p_id provider_toString) = Inherited"
    unfolding i by (simp add: get_inactiveRefs_def get_plain_def data_def Object_prototype_names_def)
  have k: "''provider'' \<noteq> ''observer''"
    by simp
  have r: "restoreProviderState
        (set_refs (AList.update (p_id provider_toString) provider_toString (o_refs (data False)))
           (data False))
        provider_toString
       = Inl (Inherited_state ''toString'')"
    using restore_Inherited [of "set_refs (AList.update (p_id provider_toString)
      provider_toString (o_refs (data False))) (data False)" provider_toString] g
    by (simp add: i)
  from p e g r subscribe_inherited [OF k p g] show ?thesis
    by simp
qed


subsection \<open>C5: refs and inactiveRefs over a sequence of calls\<close>









subsection \<open>C8: unsubscribing an id that is not registered\<close>

lemma findIndex_none:
  "findIndex xs predicate = - 1 \<longleftrightarrow> (\<forall>x \<in> set xs. \<not> predicate x)"
proof (induction xs)
  case Nil
  then show ?case by simp
next
  case (Cons x xs)
  have "0 \<le> findIndex ys predicate \<or> findIndex ys predicate = - 1" for ys :: "'a list"
    by (induction ys) (auto simp add: Let_def)
  from this [of xs] Cons.IH show ?case
    by (auto simp add: Let_def)
qed

text \<open>
  C8. The kind that the spec calls "member" is the kind 'provider' of the code, the
  default of \<open>unsubscribe\<close>. For an id that is not a key of \<open>refs\<close>,
  \<open>unsubscribe(id, 'provider')\<close> returns the observer as it was; and unsubscribing an
  id twice leaves the observer as unsubscribing it once does. (With any other kind
  the call looks for a nested observer, and leaves the observer as it was when none
  has the id.)
\<close>

theorem C8_unsubscribe_absent:
  "(id' \<notin> set (keys_of (o_refs this)) \<longrightarrow> unsubscribe this id' ''provider'' = this)
   \<and> unsubscribe (unsubscribe this id' ''provider'') id' ''provider''
       = unsubscribe this id' ''provider''
   \<and> (kind \<noteq> ''provider'' \<and> id' \<notin> o_id ` set (o_observers this)
        \<longrightarrow> unsubscribe this id' kind = this)"
proof -
  have absent: "unsubscribe this id' ''provider'' = this"
    if "map_of (o_refs this) id' = None" for this
    using that by (simp add: unsubscribe_def removeProvider_absent)
  have gone: "map_of (o_refs (unsubscribe this id' ''provider'')) id' = None"
  proof (cases "map_of (o_refs this) id'")
    case None
    then show ?thesis by (simp add: absent)
  next
    case (Some provider)
    then show ?thesis
      by (simp add: unsubscribe_def removeProvider_present delete_conv')
  qed
  have other: "unsubscribe this id' kind = this"
    if "kind \<noteq> ''provider''" "id' \<notin> o_id ` set (o_observers this)"
  proof -
    from that(2) have "findIndex (o_observers this) (\<lambda>ob. o_id ob = id') = - 1"
      unfolding findIndex_none by auto
    with that(1) show ?thesis
      by (simp add: unsubscribe_def)
  qed
  have "id' \<notin> set (keys_of (o_refs this)) \<Longrightarrow> map_of (o_refs this) id' = None"
    by (simp add: keys_of_def map_of_eq_None_iff)
  with absent [of this] absent [OF gone] other show ?thesis
    by simp
qed

theorem C8_unsubscribe_absent_witness:
  "''C'' \<notin> set (keys_of (o_refs scenario_S))
   \<and> unsubscribe scenario_S ''C'' ''provider'' = scenario_S
   \<and> ''observer'' \<noteq> ''provider'' \<and> ''C'' \<notin> o_id ` set (o_observers scenario_S)
   \<and> unsubscribe scenario_S ''C'' ''observer'' = scenario_S"
proof -
  have 1: "''C'' \<notin> set (keys_of (o_refs scenario_S))"
    by (simp add: scenario_S_def keys_of_def)
  have 2: "''observer'' \<noteq> ''provider'' \<and> ''C'' \<notin> o_id ` set (o_observers scenario_S)"
    by (simp add: scenario_S_def)
  from 1 2 C8_unsubscribe_absent [of "''C''" scenario_S "''observer''"] show ?thesis
    by blast
qed



subsection \<open>C6: reset\<close>





subsection \<open>C7: setErrors\<close>

lemma setErrors_fold_lookup:
  assumes "distinct ks"
  shows "map_of (fold (\<lambda>key refs. case map_of refs key of
                                     None \<Rightarrow> refs
                                   | Some provider \<Rightarrow> AList.update key (f provider key) refs)
                      ks refs) k =
         (case map_of refs k of
            None \<Rightarrow> None
          | Some provider \<Rightarrow> Some (if k \<in> set ks then f provider k else provider))"
  using assms
proof (induction ks arbitrary: refs)
  case Nil
  then show ?case by (simp split: option.splits)
next
  case (Cons key ks)
  let ?refs1 = "case map_of refs key of
                  None \<Rightarrow> refs | Some provider \<Rightarrow> AList.update key (f provider key) refs"
  have step: "map_of ?refs1 k =
      (case map_of refs k of
         None \<Rightarrow> None
       | Some provider \<Rightarrow> Some (if k = key then f provider k else provider))"
    by (auto simp add: update_conv' split: option.splits)
  from Cons.prems have "distinct ks" and "key \<notin> set ks"
    by simp_all
  with Cons.IH [of ?refs1] show ?case
    by (auto simp add: step split: option.splits)
qed

lemma setErrors_fold_keys:
  "map fst (fold (\<lambda>key refs. case map_of refs key of
                               None \<Rightarrow> refs
                             | Some provider \<Rightarrow> AList.update key (f provider key) refs)
                ks refs) = map fst refs"
proof (induction ks arbitrary: refs)
  case Nil
  then show ?case by simp
next
  case (Cons key ks)
  have "map fst (case map_of refs key of
                   None \<Rightarrow> refs | Some provider \<Rightarrow> AList.update key (f provider key) refs)
        = map fst refs"
    by (auto simp add: update_keys map_of_eq_None_iff split: option.splits)
  with Cons.IH show ?case
    by simp
qed

lemma get_plain_no_inherited_name:
  "key \<notin> set Object_prototype_names \<Longrightarrow>
   get_plain refs key = (case map_of refs key of None \<Rightarrow> Undefined | Some v \<Rightarrow> Value v)"
  by (simp add: get_plain_def split: option.splits)

lemma setErrors_keys_plain:
  "set ks \<inter> set Object_prototype_names = {} \<Longrightarrow>
   setErrors_keys p_setErrors errors ks refs =
     (fold (\<lambda>key refs. case map_of refs key of
                          None \<Rightarrow> refs
                        | Some provider \<Rightarrow>
                            AList.update key
                              (p_setErrors provider
                                 (case map_of errors key of None \<Rightarrow> [] | Some e \<Rightarrow> e))
                              refs)
           ks refs,
      None)"
proof (induction ks arbitrary: refs)
  case Nil
  then show ?case by simp
next
  case (Cons key ks)
  from Cons.prems have key: "key \<notin> set Object_prototype_names"
    and ks: "set ks \<inter> set Object_prototype_names = {}"
    by auto
  show ?case
    by (simp add: get_plain_no_inherited_name [OF key] Cons.IH [OF ks] split: option.splits)
qed

lemma setErrors_no_fault:
  assumes "set (keys_of errors) \<inter> set Object_prototype_names = {}"
  shows "snd (setErrors p_setErrors this errors) = None"
    and "setErrors_observers p_setErrors obs errors =
           (map (\<lambda>observer. fst (setErrors p_setErrors observer errors)) obs, None)"
  using assms
proof (induction p_setErrors this errors and p_setErrors obs errors
    rule: setErrors_setErrors_observers.induct)
  case (1 p_setErrors i refs obs inact iproto errs fl dis errors)
  then show ?case
    by (simp add: setErrors_keys_plain)
next
  case (2 p_setErrors errors)
  then show ?case by simp
next
  case (3 p_setErrors observer obs errors)
  obtain observer' where o: "setErrors p_setErrors observer errors = (observer', None)"
    using "3.IH"(1) [OF "3.prems"] by (cases "setErrors p_setErrors observer errors") simp
  from "3.IH"(2) [OF o [symmetric] _ "3.prems"] o show ?case
    by simp
qed

text \<open>
  What holds of C7, for an input none of whose keys is a name that every object
  inherits (and whose keys are distinct, as an object's are): no error is thrown; the
  keys of \<open>refs\<close> are the same; a provider registered under a key of \<open>errors\<close> has
  had \<open>setErrors(errors[key])\<close> called; every other provider is as it was, and a key
  of \<open>errors\<close> that is not registered adds nothing; every nested observer has had
  \<open>setErrors(errors)\<close> called with the same object; the other fields are the same.
\<close>

lemma setErrors_plain_keys:
  assumes "distinct (keys_of errors)"
    and "set (keys_of errors) \<inter> set Object_prototype_names = {}"
  shows
    "snd (setErrors p_setErrors this errors) = None
     \<and> (\<forall>k. map_of (o_refs (fst (setErrors p_setErrors this errors))) k =
          (case map_of (o_refs this) k of
             None \<Rightarrow> None
           | Some provider \<Rightarrow>
               (case map_of errors k of
                  None \<Rightarrow> Some provider
                | Some msgs \<Rightarrow> Some (p_setErrors provider msgs))))
     \<and> keys_of (o_refs (fst (setErrors p_setErrors this errors))) = keys_of (o_refs this)
     \<and> o_observers (fst (setErrors p_setErrors this errors))
         = map (\<lambda>observer. fst (setErrors p_setErrors observer errors)) (o_observers this)
     \<and> o_inactiveRefs (fst (setErrors p_setErrors this errors)) = o_inactiveRefs this
     \<and> o_id (fst (setErrors p_setErrors this errors)) = o_id this
     \<and> o_errors (fst (setErrors p_setErrors this errors)) = o_errors this
     \<and> o_flags (fst (setErrors p_setErrors this errors)) = o_flags this
     \<and> o_disabled (fst (setErrors p_setErrors this errors)) = o_disabled this"
proof -
  obtain i refs obs inact iproto errs fl dis
    where obs_eq: "this = Observer i refs obs inact iproto errs fl dis"
    by (cases this)
  let ?f = "\<lambda>provider key. p_setErrors provider (case map_of errors key of None \<Rightarrow> [] | Some e \<Rightarrow> e)"
  let ?refs' = "fold (\<lambda>key refs. case map_of refs key of
                          None \<Rightarrow> refs
                        | Some provider \<Rightarrow> AList.update key (?f provider key) refs)
                  (keys_of errors) refs"
  have result: "setErrors p_setErrors this errors =
      (Observer i ?refs' (map (\<lambda>observer. fst (setErrors p_setErrors observer errors)) obs)
         inact iproto errs fl dis, None)"
    by (simp add: obs_eq setErrors_keys_plain [OF assms(2)] setErrors_no_fault(2) [OF assms(2)])
  have keys: "k \<in> set (keys_of errors) \<longleftrightarrow> map_of errors k \<noteq> None" for k
    by (simp add: keys_of_def map_of_eq_None_iff)
  have lookup: "map_of ?refs' k =
          (case map_of refs k of
             None \<Rightarrow> None
           | Some provider \<Rightarrow>
               (case map_of errors k of
                  None \<Rightarrow> Some provider
                | Some msgs \<Rightarrow> Some (p_setErrors provider msgs)))" for k
    using setErrors_fold_lookup [OF assms(1), of ?f refs k] keys [of k]
    by (auto split: option.splits)
  have same_keys: "keys_of ?refs' = keys_of refs"
    using setErrors_fold_keys [of ?f "keys_of errors" refs]
    by (simp add: keys_of_def)
  show ?thesis
    unfolding result using lookup same_keys by (simp add: obs_eq)
qed

text \<open>
  C7 does not hold of the code for an input with a key that every object inherits and
  that is not registered. In \<open>form_S\<close> the provider A is registered, here and in the
  nested observer, and nothing is registered under \<open>constructor\<close>. For the input
  \<open>{A: ['bad'], constructor: ['x']}\<close> the read \<open>this.refs['constructor']\<close> gives the
  inherited function, which is truthy and has no \<open>setErrors\<close>: the call throws a
  TypeError after A has been served, and the nested observer is not reached. Without
  that key the nested observer is served.
\<close>

lemma setErrors_nested_fault:
  "setErrors setErrors_example outer_S [(''A'', [''bad'']), (''constructor'', [''x''])]
     = (set_observers [set_refs [(''A'', provider_A\<lparr>p_errors := [''bad'']\<rparr>)] inner_A, inner_A]
          (set_refs [(''constructor'', provider_constructor\<lparr>p_errors := [''x'']\<rparr>)] outer_S),
        Some (TypeError ''constructor''))"
  by (simp add: outer_S_def inner_A_def keys_of_def get_plain_def Object_prototype_names_def
      setErrors_example_def)

theorem C7_setErrors_inherited_key:
  "''constructor'' \<notin> set (keys_of (o_refs form_S))
   \<and> o_observers form_S = [inner_A]
   \<and> setErrors setErrors_example form_S [(''A'', [''bad'']), (''constructor'', [''x''])]
       = (set_refs [(''A'', provider_A\<lparr>p_errors := [''bad'']\<rparr>)] form_S,
          Some (TypeError ''constructor''))
   \<and> setErrors setErrors_example form_S [(''A'', [''bad''])]
       = (set_observers [set_refs [(''A'', provider_A\<lparr>p_errors := [''bad'']\<rparr>)] inner_A]
            (set_refs [(''A'', provider_A\<lparr>p_errors := [''bad'']\<rparr>)] form_S),
          None)"
  by (simp add: form_S_def inner_A_def keys_of_def get_plain_def Object_prototype_names_def
      setErrors_example_def)

subsection \<open>C9: the default vid\<close>

lemma digit_code:
  assumes "d < 10"
  shows "of_char (digit d) = (48 + d :: nat)"
proof -
  from assms have "d \<in> {0, 1, 2, 3, 4, 5, 6, 7, 8, 9}"
    by auto
  then show ?thesis
    by (auto simp add: digit_def)
qed

lemma digit_inj:
  assumes "a < 10" "b < 10" "digit a = digit b"
  shows "a = b"
proof -
  from assms(3) have "(of_char (digit a) :: nat) = of_char (digit b)"
    by simp
  with assms(1,2) show ?thesis
    by (simp add: digit_code)
qed

lemma Number_toString_nonempty: "Number_toString n \<noteq> []"
  by (subst Number_toString.simps) simp

lemma Number_toString_inj:
  "Number_toString a = Number_toString b \<Longrightarrow> a = b"
proof (induction a arbitrary: b rule: less_induct)
  case (less a)
  show ?case
  proof (cases "a < 10")
    case a: True
    show ?thesis
    proof (cases "b < 10")
      case True
      with a less.prems show ?thesis
        by (subst (asm) (1 2) Number_toString.simps) (simp add: digit_inj)
    next
      case False
      with a less.prems Number_toString_nonempty [of "b div 10"] show ?thesis
        by (subst (asm) (1 2) Number_toString.simps) simp
    qed
  next
    case a: False
    show ?thesis
    proof (cases "b < 10")
      case True
      with a less.prems Number_toString_nonempty [of "a div 10"] show ?thesis
        by (subst (asm) (1 2) Number_toString.simps) simp
    next
      case False
      with a less.prems
      have hi: "Number_toString (a div 10) = Number_toString (b div 10)"
        and lo: "digit (a mod 10) = digit (b mod 10)"
        by (subst (asm) (1 2) Number_toString.simps, simp)+
      from a have "a div 10 < a"
        by simp
      from less.IH [OF this hi] have "a div 10 = b div 10" .
      moreover from lo have "a mod 10 = b mod 10"
        by (intro digit_inj) simp_all
      ultimately show ?thesis
        by (metis div_mult_mod_eq)
    qed
  qed
qed

lemma vid_default_eq:
  "vid_default counter =
     (''obs_'' @ Number_toString counter, if counter < 2 ^ 53 then counter + 1 else counter)"
  by (simp add: vid_default_def post_increment_def)

lemma default_vids_prefix:
  "v \<in> set (default_vids k counter) \<Longrightarrow> prefix ''obs_'' v"
  by (induction k arbitrary: counter) (auto simp add: vid_default_eq)

lemma default_vids_upt:
  "counter + k \<le> 2 ^ 53 + 1 \<Longrightarrow>
   default_vids k counter = map (\<lambda>n. ''obs_'' @ Number_toString n) [counter ..< counter + k]"
proof (induction k arbitrary: counter)
  case 0
  then show ?case by simp
next
  case (Suc k)
  show ?case
  proof (cases k)
    case 0
    then show ?thesis
      by (simp add: vid_default_eq)
  next
    case (Suc j)
    with Suc.prems have "counter < 2 ^ 53"
      by simp
    with Suc.IH [of "counter + 1"] Suc.prems show ?thesis
      by (simp add: vid_default_eq upt_rec [of counter])
  qed
qed

text \<open>
  C9, as the code has it. The default id is \<open>obs_\<close> followed by the decimal digits
  of the counter, and below \<open>2^53\<close> reading the counter increments it. So every
  generated id has the prefix \<open>obs_\<close>, ids generated at different values of the
  counter differ, and the ids generated in a row are pairwise distinct as long as the
  counter does not pass \<open>2^53\<close>.
\<close>

theorem C9_default_vid:
  "fst (vid_default counter) = ''obs_'' @ Number_toString counter
   \<and> (counter < 2 ^ 53 \<longrightarrow> snd (vid_default counter) = counter + 1)
   \<and> (a \<noteq> b \<longrightarrow> fst (vid_default a) \<noteq> fst (vid_default b))
   \<and> (\<forall>v \<in> set (default_vids k counter). prefix ''obs_'' v)
   \<and> (counter + k \<le> 2 ^ 53 + 1 \<longrightarrow> distinct (default_vids k counter))"
proof -
  have "distinct (default_vids k counter)" if "counter + k \<le> 2 ^ 53 + 1"
    using that
    by (auto simp add: default_vids_upt distinct_map intro!: inj_onI dest: Number_toString_inj)
  moreover have "fst (vid_default a) \<noteq> fst (vid_default b)" if "a \<noteq> b"
    using that Number_toString_inj [of a b] by (auto simp add: vid_default_eq)
  ultimately show ?thesis
    using default_vids_prefix [of _ k counter] by (simp add: vid_default_eq)
qed

theorem C9_default_vid_witness:
  "(5::nat) < 2 ^ 53 \<and> snd (vid_default 5) = 6
   \<and> (0::nat) \<noteq> 1 \<and> fst (vid_default 0) \<noteq> fst (vid_default 1)
   \<and> (5::nat) + 3 \<le> 2 ^ 53 + 1 \<and> distinct (default_vids 3 5)"
  using C9_default_vid [of 5 0 1 3]
  by simp

text \<open>
  C9 as the spec states it fails: the first default id is \<open>obs_0\<close>, which does not
  begin with \<open>scope_\<close>; and at \<open>2^53\<close> the counter no longer changes, so two ids
  generated in a row there are the same.
\<close>

theorem C9_default_vid_counterexample:
  "fst (vid_default 0) = ''obs_0''
   \<and> \<not> prefix ''scope_'' (fst (vid_default 0))
   \<and> snd (vid_default (2 ^ 53)) = 2 ^ 53
   \<and> \<not> distinct (default_vids (Suc (Suc 0)) (2 ^ 53))"
proof -
  have 0: "Number_toString 0 = ''0''"
    by (subst Number_toString.simps) (simp add: digit_def)
  show ?thesis
    by (simp add: vid_default_eq 0)
qed


end
